theory Spec2Isabelle
  imports Main "HOL-Library.Multiset" "HOL-Library.List_Lexorder" "HOL-Library.Char_ord"
begin

section \<open>Column names (scraper.py, \<open>clean_column_name\<close>)\<close>

text \<open>
  Column names are Python strings. They are modelled as \<open>string\<close>, one \<open>char\<close> per
  byte, and are taken to be ASCII: Python's \<open>\d\<close> also accepts the decimal digits of
  other scripts, which no key of the scraped records uses.
\<close>

definition is_digit :: "char \<Rightarrow> bool" where
  "is_digit c = (c \<in> set ''0123456789'')"

text \<open>
  \<open>re.sub(r'_\d+$', '', col)\<close>. The pattern needs an underscore, then one or more digits,
  then the end of the string; Python's \<open>$\<close> also matches just before a newline that ends
  the string, and that newline is kept. Digits contain no underscore, so at most one
  position can match.
\<close>

definition strip_numeric_suffix :: "string \<Rightarrow> string" where
  "strip_numeric_suffix col =
     (let nl = (if col \<noteq> [] \<and> last col = CHR 0x0A then [CHR 0x0A] else []);
          body = (if nl = [] then col else butlast col);
          digits = takeWhile is_digit (rev body);
          rest = dropWhile is_digit (rev body)
      in (case rest of
            [] \<Rightarrow> col
          | c # front \<Rightarrow> if digits \<noteq> [] \<and> c = CHR ''_'' then rev front @ nl else col))"

text \<open>
  \<open>col.replace('item_', '')\<close>: every occurrence of the token is removed, scanning from
  the left and never looking back into text already emitted.
\<close>

fun remove_item_token :: "string \<Rightarrow> string" where
  "remove_item_token [] = []"
| "remove_item_token (c # cs) =
     (if take 5 (c # cs) = ''item_'' then remove_item_token (drop 4 cs)
      else c # remove_item_token cs)"

definition clean_column_name :: "string \<Rightarrow> string" where
  "clean_column_name col =
     (let col1 = strip_numeric_suffix col;
          col2 = remove_item_token col1
      in if col2 = ''name'' then ''item_name'' else col2)"

section \<open>Nested records and the flattener (scraper.py, \<open>flatten_dict\<close>)\<close>

text \<open>
  A nested record is what \<open>json.loads\<close> returns: a dict, a list or a scalar. The
  flattener never looks inside a scalar, so the type of scalars is a parameter. A Python
  dict keeps its keys in insertion order and is modelled as an association list whose
  keys are distinct.
\<close>

datatype 'a json = Scalar 'a | Dict "(string \<times> 'a json) list" | Seq "'a json list"

text \<open>\<open>d[k] = v\<close>: an existing key keeps its position and takes the new value, a new key
  goes to the end. \<open>dict(items)\<close> and \<open>d.update(items)\<close> store the pairs from left to right.\<close>

fun dict_set :: "('k \<times> 'v) list \<Rightarrow> 'k \<Rightarrow> 'v \<Rightarrow> ('k \<times> 'v) list" where
  "dict_set [] k v = [(k, v)]"
| "dict_set ((k', v') # d) k v = (if k' = k then (k, v) # d else (k', v') # dict_set d k v)"

definition dict_update :: "('k \<times> 'v) list \<Rightarrow> ('k \<times> 'v) list \<Rightarrow> ('k \<times> 'v) list" where
  "dict_update d items = foldl (\<lambda>d (k, v). dict_set d k v) d items"

definition py_dict :: "('k \<times> 'v) list \<Rightarrow> ('k \<times> 'v) list" where
  "py_dict items = dict_update [] items"

text \<open>The decimal numeral that an f-string prints for a list index.\<close>

definition digit_char :: "nat \<Rightarrow> char" where
  "digit_char d = ''0123456789'' ! d"

fun str_nat :: "nat \<Rightarrow> string" where
  "str_nat n =
     (if n < 10 then [digit_char n] else str_nat (n div 10) @ [digit_char (n mod 10)])"

declare str_nat.simps [simp del]

text \<open>
  The inner loop \<open>for i, item in enumerate(v)\<close> of \<open>flatten_dict\<close>: a dict or list element
  is skipped by \<open>continue\<close>, and the index still advances.
\<close>

fun flatten_list :: "string \<Rightarrow> nat \<Rightarrow> 'a json list \<Rightarrow> (string \<times> 'a) list" where
  "flatten_list new_key i [] = []"
| "flatten_list new_key i (Scalar x # vs) =
     (new_key @ ''_'' @ str_nat i, x) # flatten_list new_key (Suc i) vs"
| "flatten_list new_key i (_ # vs) = flatten_list new_key (Suc i) vs"

text \<open>
  The outer loop \<open>for k, v in d.items()\<close>, which builds the list \<open>items\<close>; the separator is
  always the default \<open>'_'\<close>. \<open>if parent_key\<close> tests that the string is not empty. The
  recursive call returns a dict, whose items are appended.
\<close>

fun flatten_items :: "(string \<times> 'a json) list \<Rightarrow> string \<Rightarrow> (string \<times> 'a) list" where
  "flatten_items [] parent_key = []"
| "flatten_items ((k, v) # d) parent_key =
     (let new_key = (if parent_key \<noteq> [] then parent_key @ ''_'' @ k else k)
      in (case v of
            Dict d' \<Rightarrow> py_dict (flatten_items d' new_key)
          | Seq vs \<Rightarrow> flatten_list new_key 0 vs
          | Scalar x \<Rightarrow> [(new_key, x)]) @ flatten_items d parent_key)"

definition flatten_dict :: "(string \<times> 'a json) list \<Rightarrow> string \<Rightarrow> (string \<times> 'a) list" where
  "flatten_dict d parent_key = py_dict (flatten_items d parent_key)"

subsection \<open>Paths and leaves, as the specification speaks of them\<close>

text \<open>
  A path runs from the root to a scalar leaf: a mapping key or a sequence index at each
  step. \<open>leaves\<close> lists every scalar leaf of a tree with its path, in traversal order,
  also the leaves inside a dict or list that is an element of a list.
\<close>

datatype step = Key string | Index nat

fun leaves :: "'a json \<Rightarrow> (step list \<times> 'a) list"
  and leaves_dict :: "(string \<times> 'a json) list \<Rightarrow> (step list \<times> 'a) list"
  and leaves_seq :: "nat \<Rightarrow> 'a json list \<Rightarrow> (step list \<times> 'a) list" where
  "leaves (Scalar x) = [([], x)]"
| "leaves (Dict d) = leaves_dict d"
| "leaves (Seq vs) = leaves_seq 0 vs"
| "leaves_dict [] = []"
| "leaves_dict ((k, v) # d) = map (\<lambda>(p, x). (Key k # p, x)) (leaves v) @ leaves_dict d"
| "leaves_seq i [] = []"
| "leaves_seq i (v # vs) = map (\<lambda>(p, x). (Index i # p, x)) (leaves v) @ leaves_seq (Suc i) vs"

fun is_scalar :: "'a json \<Rightarrow> bool" where
  "is_scalar (Scalar x) = True"
| "is_scalar _ = False"

text \<open>No element of a sequence is itself a mapping or a sequence.\<close>

fun simple :: "'a json \<Rightarrow> bool" where
  "simple (Scalar x) = True"
| "simple (Dict d) = list_all (\<lambda>(k, v). simple v) d"
| "simple (Seq vs) = list_all is_scalar vs"

text \<open>
  The flat key of a path under a prefix, as the code builds it: a mapping key is joined
  to the prefix with an underscore unless the prefix is the empty string; a sequence
  index is always joined with an underscore.
\<close>

fun path_key :: "string \<Rightarrow> step list \<Rightarrow> string" where
  "path_key prefix [] = prefix"
| "path_key prefix (Key k # path) =
     path_key (if prefix \<noteq> [] then prefix @ ''_'' @ k else k) path"
| "path_key prefix (Index i # path) = path_key (prefix @ ''_'' @ str_nat i) path"

definition keyed :: "string \<Rightarrow> (step list \<times> 'a) list \<Rightarrow> (string \<times> 'a) list" where
  "keyed prefix ls = map (\<lambda>(p, x). (path_key prefix p, x)) ls"

text \<open>
  The two readings of "the underscore-join of the path, with no separator prepended when
  the path prefix is empty" that treat every component of the path alike: \<open>claim_key\<close>
  joins each component, key or index, with an underscore unless the prefix so far is
  empty; \<open>join_underscore\<close> is the plain join of the components.
\<close>

fun component :: "step \<Rightarrow> string" where
  "component (Key k) = k"
| "component (Index i) = str_nat i"

fun claim_key :: "string \<Rightarrow> step list \<Rightarrow> string" where
  "claim_key prefix [] = prefix"
| "claim_key prefix (s # path) =
     claim_key (if prefix \<noteq> [] then prefix @ ''_'' @ component s else component s) path"

fun join_underscore :: "string list \<Rightarrow> string" where
  "join_underscore [] = []"
| "join_underscore [x] = x"
| "join_underscore (x # y # zs) = x @ ''_'' @ join_underscore (y # zs)"

text \<open>Two small records: one with a colliding sibling key, one with empty keys.\<close>

definition collide_record :: "(string \<times> int json) list" where
  "collide_record =
     [(''a'', Dict [(''b'', Scalar 1), (''c'', Seq [Scalar 2, Scalar 3])]), (''a_b'', Scalar 7)]"

definition empty_key_record :: "(string \<times> int json) list" where
  "empty_key_record = [([], Dict [([], Seq [Scalar 5]), (''b'', Scalar 1)])]"

text \<open>
  A leaf is visible when a sequence index occurs in its path as the last step only: the
  leaf is a scalar value of a mapping, or a scalar element of a sequence, and everything
  above it is a mapping. Every other leaf lies inside a mapping or a sequence that is
  itself an element of a sequence.
\<close>

fun visible :: "step list \<Rightarrow> bool" where
  "visible [] = True"
| "visible (Key k # path) = visible path"
| "visible (Index i # path) = (path = [])"

definition visible_leaves :: "'a json \<Rightarrow> (step list \<times> 'a) list" where
  "visible_leaves t = filter (\<lambda>(path, x). visible path) (leaves t)"

text \<open>A record with a mapping and a sequence among the elements of a sequence.\<close>

definition nested_record :: "(string \<times> int json) list" where
  "nested_record =
     [(''a'', Dict [(''b'', Seq [Scalar 1, Dict [(''z'', Scalar 9)], Seq [Scalar 8], Scalar 2])]),
      (''c'', Seq [Dict [(''y'', Scalar 7)]])]"

section \<open>Tables (the pandas operations that scraper.py calls)\<close>

text \<open>
  A cell of a table is missing (\<open>None\<close> or \<open>NaN\<close>), a string or a number. The type of
  numbers is a parameter with a zero and a linear order; Python's \<open>True\<close> and \<open>False\<close> are
  the numbers 1 and 0, as they are for \<open>filter(None, ...)\<close>, \<open>str.join\<close> and comparison.
  The exceptions that the calls of process_menu_data can raise are values of \<open>error\<close>.
\<close>

datatype 'n cell = Missing | Str string | Num 'n

datatype error = KeyError string | TypeError | ValueError

text \<open>
  A DataFrame is the list of its columns, each a label with its values, in column order.
  Labels may repeat: \<open>df.columns = [...]\<close> accepts duplicates. All columns have the same
  length. The row index is not modelled, so a table without columns has no rows; the
  tables of this program are built from a list of dicts, for which that is the case.
\<close>

type_synonym 'n frame = "(string \<times> 'n cell list) list"

definition columns :: "'n frame \<Rightarrow> string list" where
  "columns df = map fst df"

definition nrows :: "'n frame \<Rightarrow> nat" where
  "nrows df = (case df of [] \<Rightarrow> 0 | (_, vs) # _ \<Rightarrow> length vs)"

text \<open>
  \<open>Index.duplicated()\<close>: an entry is marked when an equal entry stands before it.
  \<open>keep_first\<close> keeps the entries that are not marked, as \<open>df.loc[:, ~mask]\<close> does.
\<close>

fun duplicated :: "'a list \<Rightarrow> 'a list \<Rightarrow> bool list" where
  "duplicated seen [] = []"
| "duplicated seen (x # xs) = (x \<in> set seen) # duplicated (x # seen) xs"

definition keep_unseen :: "('a \<Rightarrow> 'k) \<Rightarrow> 'k list \<Rightarrow> 'a list \<Rightarrow> 'a list" where
  "keep_unseen label seen xs =
     map snd (filter (\<lambda>(dup, x). \<not> dup) (zip (duplicated seen (map label xs)) xs))"

definition keep_first :: "('a \<Rightarrow> 'k) \<Rightarrow> 'a list \<Rightarrow> 'a list" where
  "keep_first label xs = keep_unseen label [] xs"

text \<open>
  \<open>pd.DataFrame(all_items)\<close> for a list of dicts: the columns are the keys in the order in
  which they are first seen, and a record without a key has a missing cell there.
\<close>

definition data_frame :: "(string \<times> 'n cell) list list \<Rightarrow> 'n frame" where
  "data_frame batch =
     map (\<lambda>k. (k, map (\<lambda>r. case map_of r k of Some v \<Rightarrow> v | None \<Rightarrow> Missing) batch))
       (keep_first id (concat (map (map fst) batch)))"

text \<open>
  \<open>df[labels]\<close> with a list of labels: for each label in turn, every column that carries
  it. \<open>df.drop(columns=labels)\<close> removes every column whose label is listed.
  \<open>df[name] = values\<close> overwrites every column labelled \<open>name\<close> in place, or appends a new
  column when there is none.
\<close>

definition select_cols :: "string list \<Rightarrow> 'n frame \<Rightarrow> 'n frame" where
  "select_cols labels df = concat (map (\<lambda>l. filter (\<lambda>c. fst c = l) df) labels)"

definition drop_cols :: "string list \<Rightarrow> 'n frame \<Rightarrow> 'n frame" where
  "drop_cols labels df = filter (\<lambda>c. fst c \<notin> set labels) df"

definition set_column :: "string \<Rightarrow> 'n cell list \<Rightarrow> 'n frame \<Rightarrow> 'n frame" where
  "set_column name vs df =
     (if name \<in> set (columns df) then map (\<lambda>(n, ws). if n = name then (n, vs) else (n, ws)) df
      else df @ [(name, vs)])"

text \<open>The rows of a table, and the table with its rows taken in the order of an indexer.\<close>

definition rows_of :: "'n frame \<Rightarrow> nat \<Rightarrow> 'n cell list list" where
  "rows_of df n = map (\<lambda>i. map (\<lambda>(_, vs). vs ! i) df) [0..<n]"

definition take_rows :: "nat list \<Rightarrow> 'n frame \<Rightarrow> 'n frame" where
  "take_rows indexer df = map (\<lambda>(n, vs). (n, map (\<lambda>i. vs ! i) indexer)) df"

text \<open>A failing element makes the whole comprehension or \<open>apply\<close> fail, with its error.\<close>

fun collect :: "(error + 'a) list \<Rightarrow> error + 'a list" where
  "collect [] = Inr []"
| "collect (Inl e # rs) = Inl e"
| "collect (Inr v # rs) = (case collect rs of Inl e \<Rightarrow> Inl e | Inr vs \<Rightarrow> Inr (v # vs))"

section \<open>Column order (scraper.py, \<open>organize_columns\<close>)\<close>

definition priority_cols :: "string list" where
  "priority_cols = [''category'', ''item_name'', ''price'', ''desc'', ''dietary_slugs'',
     ''rating_value'', ''rating_total_rating_text'', ''item_state'', ''tag_slugs'',
     ''service_slugs'']"

definition organize_columns :: "'n frame \<Rightarrow> 'n frame" where
  "organize_columns df =
     (let existing_priority_cols = filter (\<lambda>col. col \<in> set (columns df)) priority_cols;
          other_cols = filter (\<lambda>col. col \<notin> set existing_priority_cols) (columns df)
      in select_cols (existing_priority_cols @ other_cols) df)"

section \<open>Indexed groups (scraper.py, \<open>clean_tag_columns\<close>)\<close>

text \<open>
  The keys of \<open>tag_patterns\<close>, in the order of the dict. The pattern of a key is the key
  followed by \<open>_\d+\<close>, and \<open>re.match\<close> anchors it at the start of the column name only:
  the name has to begin with the key, an underscore and a digit.
\<close>

definition tag_groups :: "string list" where
  "tag_groups = [''tag_slugs'', ''service_slugs'', ''dietary_slugs'']"

definition matches_group :: "string \<Rightarrow> string \<Rightarrow> bool" where
  "matches_group new_col col =
     (take (length new_col + 1) col = new_col @ ''_'' \<and>
      (case drop (length new_col + 1) col of [] \<Rightarrow> False | c # _ \<Rightarrow> is_digit c))"

fun join_comma :: "string list \<Rightarrow> string" where
  "join_comma [] = []"
| "join_comma [x] = x"
| "join_comma (x # y # zs) = x @ '', '' @ join_comma (y # zs)"

fun str_value :: "'n cell \<Rightarrow> string option" where
  "str_value (Str s) = Some s"
| "str_value _ = None"

text \<open>
  The lambda applied to each row, \<open>', '.join(filter(None, x.dropna()))\<close>: \<open>dropna\<close> removes
  the missing cells, \<open>filter(None, ...)\<close> the falsy ones (the empty string and zero), and
  \<open>join\<close> raises TypeError on a value that is not a string.
\<close>

definition join_row :: "'n::zero cell list \<Rightarrow> error + 'n cell" where
  "join_row x =
     (let kept = filter (\<lambda>v. v \<noteq> Str [] \<and> v \<noteq> Num 0) (filter (\<lambda>v. v \<noteq> Missing) x)
      in case those (map str_value kept) of
           None \<Rightarrow> Inl TypeError
         | Some strs \<Rightarrow> Inr (Str (join_comma strs)))"

text \<open>The body of the loop over \<open>tag_patterns\<close>, for one key, and the loop.\<close>

definition combine_group :: "string \<Rightarrow> 'n::zero frame \<Rightarrow> error + 'n frame" where
  "combine_group new_col df =
     (let matching_cols = filter (matches_group new_col) (columns df) in
      if matching_cols \<noteq> [] then
        (case collect (map join_row (rows_of (select_cols matching_cols df) (nrows df))) of
           Inl e \<Rightarrow> Inl e
         | Inr vs \<Rightarrow> Inr (drop_cols matching_cols (set_column new_col vs df)))
      else Inr df)"

fun combine_groups :: "string list \<Rightarrow> 'n::zero frame \<Rightarrow> error + 'n frame" where
  "combine_groups [] df = Inr df"
| "combine_groups (new_col # rest) df =
     (case combine_group new_col df of Inl e \<Rightarrow> Inl e | Inr df' \<Rightarrow> combine_groups rest df')"

definition clean_tag_columns :: "'n::zero frame \<Rightarrow> error + 'n frame" where
  "clean_tag_columns df = combine_groups tag_groups df"

text \<open>
  Notions for the results below. A table is rectangular when every column has as many
  cells as the table has rows. Two group names are apart when they differ, neither
  matches the pattern of the other, and no column name matches both patterns. In row
  \<open>i\<close>, a group is empty when some column matches its pattern and every column that
  does is missing or the empty string there; it is done when the column named after the
  group is present and holds the empty string there.
\<close>

definition rect :: "'n frame \<Rightarrow> bool" where
  "rect df = (\<forall>c\<in>set df. length (snd c) = nrows df)"

definition apart :: "string \<Rightarrow> string \<Rightarrow> bool" where
  "apart g h = (g \<noteq> h \<and> \<not> matches_group h g \<and> \<not> matches_group g h \<and>
     (\<forall>n. \<not> (matches_group g n \<and> matches_group h n)))"

definition row_empty :: "string \<Rightarrow> nat \<Rightarrow> 'n frame \<Rightarrow> bool" where
  "row_empty g i df =
     (filter (matches_group g) (columns df) \<noteq> [] \<and>
      (\<forall>c\<in>set df. matches_group g (fst c) \<longrightarrow> snd c ! i = Missing \<or> snd c ! i = Str []))"

definition row_done :: "string \<Rightarrow> nat \<Rightarrow> 'n frame \<Rightarrow> bool" where
  "row_done g i df =
     (g \<in> set (columns df) \<and> (\<forall>vs. (g, vs) \<in> set df \<longrightarrow> vs ! i = Str []))"



section \<open>Numeric columns (scraper.py, \<open>process_menu_data\<close>, the loop over \<open>numeric_cols\<close>)\<close>

definition numeric_cols :: "string list" where
  "numeric_cols = [''price'', ''rating_value'', ''min_price'', ''max_price'',
     ''default_price'', ''display_price'']"

text \<open>
  \<open>pd.to_numeric(series, errors='ignore')\<close>. How pandas reads a string as a number is not
  part of this repository and is a parameter, \<open>parse\<close>: it gives the number, or a missing
  cell for a string that stands for NaN, or fails. A cell that is a number or missing
  already is taken as it is. With \<open>errors='ignore'\<close> a single failure makes pandas return
  its input: the whole column stays as it was. The cast of a converted column to one
  dtype (an integer beside a float becomes a float64) is not modelled: the converted
  cells are the numbers that \<open>parse\<close> gives.
\<close>

definition parse_value :: "(string \<Rightarrow> 'n cell option) \<Rightarrow> 'n cell \<Rightarrow> 'n cell option" where
  "parse_value parse v = (case v of Str s \<Rightarrow> parse s | _ \<Rightarrow> Some v)"

definition to_numeric_ignore ::
  "(string \<Rightarrow> 'n cell option) \<Rightarrow> 'n cell list \<Rightarrow> 'n cell list" where
  "to_numeric_ignore parse vs =
     (case those (map (parse_value parse) vs) of Some ws \<Rightarrow> ws | None \<Rightarrow> vs)"

text \<open>
  The loop \<open>for col in numeric_cols\<close>. When the label occurs more than once, \<open>df[col]\<close> is
  a DataFrame and \<open>pd.to_numeric\<close> raises TypeError for an argument that is not
  one-dimensional, whatever \<open>errors\<close> is.
\<close>

fun convert_numeric ::
  "(string \<Rightarrow> 'n cell option) \<Rightarrow> string list \<Rightarrow> 'n frame \<Rightarrow> error + 'n frame" where
  "convert_numeric parse [] df = Inr df"
| "convert_numeric parse (col # cols) df =
     (if col \<in> set (columns df) then
        (case filter (\<lambda>c. fst c = col) df of
           [(_, vs)] \<Rightarrow> convert_numeric parse cols (set_column col (to_numeric_ignore parse vs) df)
         | _ \<Rightarrow> Inl TypeError)
      else convert_numeric parse cols df)"

section \<open>Row order (\<open>df.sort_values(['category', 'price'])\<close>)\<close>

text \<open>
  The order in which pandas sorts the cells of a key column, ascending: numbers by
  value, strings by their characters, and missing cells last (\<open>na_position='last'\<close>). On a
  column that mixes numbers and strings the sort by several keys puts the numbers first.
\<close>

fun cell_le :: "'n::linorder cell \<Rightarrow> 'n cell \<Rightarrow> bool" where
  "cell_le (Num a) (Num b) = (a \<le> b)"
| "cell_le (Num a) (Str b) = True"
| "cell_le (Num a) Missing = True"
| "cell_le (Str a) (Num b) = False"
| "cell_le (Str a) (Str b) = (a \<le> b)"
| "cell_le (Str a) Missing = True"
| "cell_le Missing (Num b) = False"
| "cell_le Missing (Str b) = False"
| "cell_le Missing Missing = True"

instantiation cell :: (linorder) linorder
begin

definition less_eq_cell :: "'a cell \<Rightarrow> 'a cell \<Rightarrow> bool" where
  "less_eq_cell x y = cell_le x y"

definition less_cell :: "'a cell \<Rightarrow> 'a cell \<Rightarrow> bool" where
  "less_cell x y = (cell_le x y \<and> \<not> cell_le y x)"

instance
proof
  fix x y z :: "'a cell"
  show "(x < y) = (x \<le> y \<and> \<not> y \<le> x)"
    by (simp add: less_cell_def less_eq_cell_def)
  show "x \<le> x"
    by (cases x) (simp_all add: less_eq_cell_def)
  show "x \<le> y \<Longrightarrow> y \<le> z \<Longrightarrow> x \<le> z"
    by (cases x; cases y; cases z) (auto simp: less_eq_cell_def)
  show "x \<le> y \<Longrightarrow> y \<le> x \<Longrightarrow> x = y"
    by (cases x; cases y) (auto simp: less_eq_cell_def)
  show "x \<le> y \<or> y \<le> x"
    by (cases x; cases y) (auto simp: less_eq_cell_def)
qed

end

text \<open>
  A key of the sort is looked up by its label: KeyError when no column carries it,
  ValueError when several do. The rows are then ordered by their keys, the first key
  first, and rows with equal keys keep their order.
\<close>

definition sort_column :: "string \<Rightarrow> 'n frame \<Rightarrow> error + 'n cell list" where
  "sort_column key df =
     (case filter (\<lambda>c. fst c = key) df of
        [] \<Rightarrow> Inl (KeyError key)
      | [c] \<Rightarrow> Inr (snd c)
      | _ \<Rightarrow> Inl ValueError)"

definition sort_indexer :: "'n::linorder cell list list \<Rightarrow> nat \<Rightarrow> nat list" where
  "sort_indexer keys n = sort_key (\<lambda>i. map (\<lambda>vs. vs ! i) keys) [0..<n]"

definition sort_values :: "string list \<Rightarrow> 'n::linorder frame \<Rightarrow> error + 'n frame" where
  "sort_values by df =
     (case collect (map (\<lambda>key. sort_column key df) by) of
        Inl e \<Rightarrow> Inl e
      | Inr keys \<Rightarrow> Inr (take_rows (sort_indexer keys (nrows df)) df))"

section \<open>The pipeline (scraper.py, \<open>process_menu_data\<close>)\<close>

definition rename_columns :: "'n frame \<Rightarrow> 'n frame" where
  "rename_columns df = map (\<lambda>(col, vs). (clean_column_name col, vs)) df"

definition drop_duplicated :: "'n frame \<Rightarrow> 'n frame" where
  "drop_duplicated df = keep_first fst df"

definition cols_to_drop :: "string list" where
  "cols_to_drop = [''fb_slug'', ''name_slug'', ''item_metadata'', ''tracking_dish_type'',
     ''item_tag_image'', ''tag_images'', ''tag_texts'', ''tag_objects'']"

text \<open>
  process_menu_data runs its steps in this order: rename the columns, convert the numeric
  columns, combine the tag columns (\<open>collapsed\<close>); remove duplicate columns, organize the
  columns, drop the unnecessary ones (\<open>unsorted\<close>); sort the rows.
\<close>

definition collapsed ::
  "(string \<Rightarrow> 'n cell option) \<Rightarrow> 'n::{zero,linorder} frame \<Rightarrow> error + 'n frame" where
  "collapsed parse df =
     (case convert_numeric parse numeric_cols (rename_columns df) of
        Inl e \<Rightarrow> Inl e
      | Inr df' \<Rightarrow> clean_tag_columns df')"

definition unsorted ::
  "(string \<Rightarrow> 'n cell option) \<Rightarrow> 'n::{zero,linorder} frame \<Rightarrow> error + 'n frame" where
  "unsorted parse df =
     (case collapsed parse df of
        Inl e \<Rightarrow> Inl e
      | Inr df3 \<Rightarrow>
          (let df4 = drop_duplicated df3;
               df5 = organize_columns df4
           in Inr (drop_cols (filter (\<lambda>col. col \<in> set (columns df5)) cols_to_drop) df5)))"

definition process_menu_data ::
  "(string \<Rightarrow> 'n cell option) \<Rightarrow> 'n::{zero,linorder} frame \<Rightarrow> error + 'n frame" where
  "process_menu_data parse df =
     (case unsorted parse df of
        Inl e \<Rightarrow> Inl e
      | Inr df6 \<Rightarrow> sort_values [''category'', ''price''] df6)"



subsection \<open>Concrete inputs\<close>

text \<open>
  A parser for the examples: the empty string reads as NaN and a string of decimal
  digits as its value, as in pandas; every other string fails here. pandas reads more
  strings than these (signs, fractions, exponents), so the general results below hold
  for any parser and this one is used only on the strings of the examples.
\<close>

fun decimal_value :: "nat \<Rightarrow> string \<Rightarrow> nat" where
  "decimal_value acc [] = acc"
| "decimal_value acc (c # cs) = decimal_value (10 * acc + (of_char c - 48)) cs"

definition parse_decimal :: "string \<Rightarrow> int cell option" where
  "parse_decimal s =
     (if s = [] then Some Missing
      else if list_all is_digit s then Some (Num (int (decimal_value 0 s)))
      else None)"

definition tags_batch :: "(string \<times> int cell) list list" where
  "tags_batch =
     [[(''name'', Str ''Dal''), (''price'', Str ''80''), (''tag_slugs_0'', Str ''veg''),
       (''tag_slugs_1'', Str ''spicy''), (''tag_slugs_2'', Str []),
       (''category'', Str ''Mains'')]]"

definition menu_batch :: "(string \<times> int cell) list list" where
  "menu_batch =
     [[(''category'', Str ''Starters''), (''price'', Str ''150''), (''name'', Str ''Soup'')],
      [(''category'', Str ''Mains''), (''price'', Str ''80''), (''name'', Str ''Rice'')]]"


definition dup_price_batch :: "(string \<times> int cell) list list" where
  "dup_price_batch =
     [[(''category'', Str ''Mains''), (''price'', Str ''80''), (''item_price'', Str ''90'')]]"



definition desc_batch :: "(string \<times> int cell) list list" where
  "desc_batch =
     [[(''category'', Str ''Mains''), (''price'', Str ''80''),
       (''desc'', Str ''first''), (''item_desc'', Str ''second'')]]"

definition slugs_frame :: "int frame" where
  "slugs_frame =
     [(''tag_slugs_0'', [Str ''veg'', Str []]), (''service_slugs_0'', [Str ''dine'', Str ''dine'']),
      (''tag_slugs_1'', [Str ''spicy'', Missing])]"

definition shuffled_frame :: "int frame" where
  "shuffled_frame =
     [(''fb_slug'', [Str ''x'']), (''price'', [Num 80]), (''url'', [Str ''u'']),
      (''category'', [Str ''Mains''])]"

section \<open>Results about column names\<close>

lemma clean_column_name_examples:
  "clean_column_name ''name'' = ''item_name''"
  "clean_column_name ''item_price_3'' = ''price''"
  "clean_column_name ''tag_slugs_0'' = ''tag_slugs''"
  by (simp_all add: clean_column_name_def strip_numeric_suffix_def is_digit_def)

text \<open>
  C6. The claim says the token \<open>item_\<close> is stripped only where it is a prefix of the
  column name, as the comment above the call in the source does ("Remove unnecessary
  prefixes"). The code removes the token wherever it occurs: the raw column
  \<open>menu_item_id\<close>, in which the token is not a prefix, becomes \<open>menu_id\<close>.
\<close>

theorem clean_column_name_inner_token:
  "clean_column_name ''menu_item_id'' = ''menu_id''"
  by (simp add: clean_column_name_def strip_numeric_suffix_def is_digit_def)

section \<open>Results about dicts\<close>

lemma dict_set_keys:
  "map fst (dict_set d k v) = (if k \<in> set (map fst d) then map fst d else map fst d @ [k])"
  by (induction d) force+

lemma dict_update_distinct:
  "distinct (map fst d) \<Longrightarrow> distinct (map fst (dict_update d items))"
  unfolding dict_update_def
  by (induction items arbitrary: d) (auto simp: dict_set_keys)

lemma py_dict_distinct: "distinct (map fst (py_dict items))"
  by (simp add: py_dict_def dict_update_distinct)

lemma dict_set_fresh: "k \<notin> fst ` set d \<Longrightarrow> dict_set d k v = d @ [(k, v)]"
  by (induction d) auto

lemma dict_update_Nil: "dict_update d [] = d"
  by (simp add: dict_update_def)

lemma dict_update_Cons: "dict_update d ((k, v) # xs) = dict_update (dict_set d k v) xs"
  by (simp add: dict_update_def)

lemma dict_update_append: "dict_update d (xs @ ys) = dict_update (dict_update d xs) ys"
  by (simp add: dict_update_def)

lemma dict_update_fresh:
  "distinct (map fst (d @ items)) \<Longrightarrow> dict_update d items = d @ items"
proof (induction items arbitrary: d)
  case Nil
  then show ?case by (simp add: dict_update_Nil)
next
  case (Cons a items)
  obtain k v where a: "a = (k, v)" by (cases a)
  from Cons.prems a have "k \<notin> fst ` set d" by auto
  then have "dict_set d k v = d @ [(k, v)]" by (rule dict_set_fresh)
  moreover from Cons.prems a have "distinct (map fst ((d @ [(k, v)]) @ items))" by simp
  ultimately show ?case using Cons.IH[of "d @ [(k, v)]"] a by (simp add: dict_update_Cons)
qed

lemma py_dict_id: "distinct (map fst items) \<Longrightarrow> py_dict items = items"
  using dict_update_fresh[of "[]" items] by (simp add: py_dict_def)

lemma dict_set_twice: "dict_set (dict_set d k v') k v = dict_set d k v"
  by (induction d) auto

lemma dict_set_commute:
  "k \<noteq> k1 \<Longrightarrow> k \<in> fst ` set d \<Longrightarrow>
   dict_set (dict_set d k1 v1) k v = dict_set (dict_set d k v) k1 v1"
  by (induction d) (fastforce simp: image_iff)+

lemma dict_set_mem: "k \<in> fst ` set (dict_set d k v)"
  by (induction d) force+

lemma dict_set_mem_mono: "k \<in> fst ` set d \<Longrightarrow> k \<in> fst ` set (dict_set d k1 v1)"
  by (induction d) (fastforce simp: image_iff)+

text \<open>Storing under a key that is already present commutes with later stores under
  other keys.\<close>

lemma dict_set_past_update:
  "k \<in> fst ` set d \<Longrightarrow> k \<notin> fst ` set e \<Longrightarrow>
   dict_set (dict_update d e) k v = dict_update (dict_set d k v) e"
proof (induction e arbitrary: d)
  case Nil
  then show ?case by (simp add: dict_update_Nil)
next
  case (Cons a e)
  obtain k1 v1 where a: "a = (k1, v1)" by (cases a)
  from Cons.prems a have ne: "k \<noteq> k1" and notin: "k \<notin> fst ` set e" by auto
  have "dict_set (dict_update (dict_set d k1 v1) e) k v =
        dict_update (dict_set (dict_set d k1 v1) k v) e"
    using Cons.IH[of "dict_set d k1 v1"] notin Cons.prems(1) by (simp add: dict_set_mem_mono)
  also have "dict_set (dict_set d k1 v1) k v = dict_set (dict_set d k v) k1 v1"
    using ne Cons.prems(1) by (rule dict_set_commute)
  finally show ?case by (simp add: a dict_update_Cons)
qed

lemma dict_update_dict_set:
  "distinct (map fst e) \<Longrightarrow> dict_update d (dict_set e k v) = dict_set (dict_update d e) k v"
proof (induction e arbitrary: d)
  case Nil
  then show ?case by (simp add: dict_update_Cons dict_update_Nil)
next
  case (Cons a e)
  obtain k1 v1 where a: "a = (k1, v1)" by (cases a)
  show ?case
  proof (cases "k1 = k")
    case True
    from Cons.prems a True have notin: "k \<notin> fst ` set e" by auto
    have "dict_set (dict_update (dict_set d k v1) e) k v =
          dict_update (dict_set (dict_set d k v1) k v) e"
      using notin by (intro dict_set_past_update) (simp_all add: dict_set_mem)
    then show ?thesis using True a by (simp add: dict_update_Cons dict_set_twice)
  next
    case False
    then show ?thesis using Cons a by (simp add: dict_update_Cons)
  qed
qed

text \<open>Building a dict first and storing its items gives what storing the raw pairs gives.\<close>

lemma dict_update_py_dict: "dict_update d (py_dict items) = dict_update d items"
proof (induction items rule: rev_induct)
  case Nil
  then show ?case by (simp add: py_dict_def dict_update_Nil)
next
  case (snoc a items)
  obtain k v where a: "a = (k, v)" by (cases a)
  have "py_dict (items @ [(k, v)]) = dict_set (py_dict items) k v"
    by (simp add: py_dict_def dict_update_append dict_update_Cons dict_update_Nil)
  then have "dict_update d (py_dict (items @ [a])) = dict_set (dict_update d (py_dict items)) k v"
    using a by (simp add: dict_update_dict_set py_dict_distinct)
  then show ?case using snoc a
    by (simp add: dict_update_append dict_update_Cons dict_update_Nil)
qed

lemma map_of_dict_set: "map_of (dict_set d k v) = (map_of d)(k \<mapsto> v)"
  by (induction d) auto

lemma map_of_dict_update: "map_of (dict_update d items) = map_of d ++ map_of (rev items)"
  unfolding dict_update_def
  by (induction items arbitrary: d)
    (auto simp: map_of_dict_set map_add_def fun_eq_iff split: option.splits)

section \<open>Results about the flattener\<close>

lemma keyed_append: "keyed p (xs @ ys) = keyed p xs @ keyed p ys"
  by (simp add: keyed_def)

lemma keyed_Key:
  "keyed p (map (\<lambda>(q, x). (Key k # q, x)) ls) =
   keyed (if p \<noteq> [] then p @ ''_'' @ k else k) ls"
  by (simp add: keyed_def case_prod_unfold)

lemma flatten_list_keyed:
  "list_all is_scalar vs \<Longrightarrow> flatten_list new_key i vs = keyed new_key (leaves_seq i vs)"
  by (induction new_key i vs rule: flatten_list.induct) (auto simp: keyed_def)

lemma flatten_items_keyed:
  "list_all (\<lambda>(k, v). simple v) d \<Longrightarrow>
   dict_update acc (flatten_items d p) = dict_update acc (keyed p (leaves_dict d))"
proof (induction d p arbitrary: acc rule: flatten_items.induct)
  case (1 parent_key)
  then show ?case by (simp add: keyed_def)
next
  case (2 k v d parent_key)
  define new_key where "new_key = (if parent_key \<noteq> [] then parent_key @ ''_'' @ k else k)"
  have rest: "\<And>acc. dict_update acc (flatten_items d parent_key) =
                    dict_update acc (keyed parent_key (leaves_dict d))"
    using 2 by (simp add: new_key_def)
  show ?case
  proof (cases v)
    case (Scalar x)
    have "keyed parent_key (leaves_dict ((k, v) # d)) =
          (new_key, x) # keyed parent_key (leaves_dict d)"
      using Scalar by (simp add: keyed_def new_key_def)
    moreover have "flatten_items ((k, v) # d) parent_key =
                   (new_key, x) # flatten_items d parent_key"
      using Scalar by (simp add: new_key_def)
    ultimately show ?thesis using rest
      by (simp only: dict_update_Cons)
  next
    case (Dict d')
    with 2 have "\<And>acc. dict_update acc (flatten_items d' new_key) =
                       dict_update acc (keyed new_key (leaves_dict d'))"
      by (simp add: new_key_def)
    then show ?thesis using rest Dict
      by (simp add: dict_update_append keyed_append keyed_Key dict_update_py_dict new_key_def)
  next
    case (Seq vs)
    with 2 have "list_all is_scalar vs" by simp
    then show ?thesis using rest Seq
      by (simp add: dict_update_append keyed_append keyed_Key flatten_list_keyed)
  qed
qed

lemma flatten_list_append:
  "flatten_list nk i (pre @ post) =
   flatten_list nk i pre @ flatten_list nk (i + length pre) post"
  by (induction nk i pre rule: flatten_list.induct) auto

lemma flatten_items_append:
  "flatten_items (d1 @ d2) p = flatten_items d1 p @ flatten_items d2 p"
  by (induction d1 p rule: flatten_items.induct) (auto simp: Let_def)

lemma empty_key_record_flat:
  "flatten_dict empty_key_record [] = [(''_0'', 5), (''b'', 1)]"
  by (simp add: empty_key_record_def flatten_dict_def py_dict_def dict_update_def
      str_nat.simps digit_char_def)

text \<open>
  C4, as stated. In the record \<open>{"": {"": [5], "b": 1}}\<close> the leaf \<open>5\<close> has the path
  \<open>"", "", 0\<close> and the prefix of its index is the empty string. With no separator
  prepended to an empty prefix its key would be \<open>0\<close>, and the plain underscore-join of
  its path is \<open>__0\<close>; the code writes \<open>_0\<close>. So neither reading of the claim's key gives
  the output of the flattener on this record.
\<close>

theorem flatten_empty_key_counterexample:
  "flatten_dict empty_key_record [] \<noteq>
     py_dict (map (\<lambda>(p, x). (claim_key [] p, x)) (leaves (Dict empty_key_record)))
   \<and> flatten_dict empty_key_record [] \<noteq>
     py_dict (map (\<lambda>(p, x). (join_underscore (map component p), x))
       (leaves (Dict empty_key_record)))"
  by (simp add: empty_key_record_def flatten_dict_def py_dict_def dict_update_def
      str_nat.simps digit_char_def)

text \<open>
  C4, amended. For every nested record in which no sequence element is a mapping or a
  sequence, and every starting prefix, the flat output is the dict built from the scalar
  leaves in traversal order, each under the key of its path, where a mapping key is
  joined with an underscore unless the prefix so far is the empty string and a sequence
  index is always joined with an underscore. When these keys are pairwise different the
  output has exactly one entry per leaf, in traversal order; when keys collide, the value
  looked up under a key is that of the last leaf written under it.
\<close>

theorem flatten_dict_paths:
  assumes "simple (Dict d)"
  shows "flatten_dict d p = py_dict (keyed p (leaves (Dict d)))
    \<and> (distinct (map fst (keyed p (leaves (Dict d)))) \<longrightarrow>
         flatten_dict d p = keyed p (leaves (Dict d)))
    \<and> map_of (flatten_dict d p) = map_of (rev (keyed p (leaves (Dict d))))"
proof -
  have a: "flatten_dict d p = py_dict (keyed p (leaves (Dict d)))"
    using assms flatten_items_keyed[of d "[]" p] by (simp add: flatten_dict_def py_dict_def)
  moreover have "map_of (flatten_dict d p) = map_of (rev (keyed p (leaves (Dict d))))"
    using a by (simp add: py_dict_def map_of_dict_update)
  ultimately show ?thesis by (simp add: py_dict_id)
qed

theorem flatten_dict_paths_witness:
  "simple (Dict collide_record)
   \<and> flatten_dict collide_record [] = [(''a_b'', 7), (''a_c_0'', 2), (''a_c_1'', 3)]
   \<and> keyed [] (leaves (Dict collide_record)) =
       [(''a_b'', 1), (''a_c_0'', 2), (''a_c_1'', 3), (''a_b'', 7)]
   \<and> map_of (flatten_dict collide_record []) ''a_b'' = Some 7"
proof -
  have s: "simple (Dict collide_record)"
    by (simp add: collide_record_def)
  have k: "keyed [] (leaves (Dict collide_record)) =
             [(''a_b'', 1), (''a_c_0'', 2), (''a_c_1'', 3), (''a_b'', 7)]"
    by (simp add: collide_record_def keyed_def str_nat.simps digit_char_def)
  have d: "py_dict [(''a_b'', 1), (''a_c_0'', 2), (''a_c_1'', 3), (''a_b'', 7::int)] =
             [(''a_b'', 7), (''a_c_0'', 2), (''a_c_1'', 3)]"
    by (simp add: py_dict_def dict_update_def)
  from flatten_dict_paths[OF s, of "[]"]
  have "flatten_dict collide_record [] = py_dict (keyed [] (leaves (Dict collide_record)))"
    by blast
  then have f: "flatten_dict collide_record [] = [(''a_b'', 7), (''a_c_0'', 2), (''a_c_1'', 3)]"
    by (simp only: k d)
  have "map_of (flatten_dict collide_record []) ''a_b'' = Some 7"
    by (simp add: f)
  with s k f show ?thesis by blast
qed

lemma leaves_dict_paths: "(q, x) \<in> set (leaves_dict d) \<Longrightarrow> q \<noteq> []"
  by (induction d) auto

lemma leaves_seq_paths: "(q, x) \<in> set (leaves_seq i vs) \<Longrightarrow> q \<noteq> []"
  by (induction vs arbitrary: i) auto

lemma filter_visible_Key:
  "filter (\<lambda>(path, x). visible path) (map (\<lambda>(q, x). (Key k # q, x)) ls) =
   map (\<lambda>(q, x). (Key k # q, x)) (filter (\<lambda>(path, x). visible path) ls)"
  by (induction ls) auto

lemma filter_visible_deep:
  "\<forall>e\<in>set ls. fst e \<noteq> [] \<Longrightarrow>
   filter (\<lambda>(path, x). visible path) (map (\<lambda>(q, x). (Index i # q, x)) ls) = []"
  by (induction ls) auto

lemma filter_visible_Index:
  "filter (\<lambda>(path, x). visible path) (map (\<lambda>(q, x). (Index i # q, x)) (leaves v)) =
   (case v of Scalar x \<Rightarrow> [([Index i], x)] | _ \<Rightarrow> [])"
proof (cases v)
  case (Scalar x)
  then show ?thesis by simp
next
  case (Dict d)
  have "\<forall>e\<in>set (leaves_dict d). fst e \<noteq> []" using leaves_dict_paths by fastforce
  then show ?thesis using Dict by (simp add: filter_visible_deep)
next
  case (Seq vs)
  have "\<forall>e\<in>set (leaves_seq 0 vs). fst e \<noteq> []" using leaves_seq_paths by fastforce
  then show ?thesis using Seq by (simp add: filter_visible_deep)
qed

lemma flatten_list_visible:
  "flatten_list new_key i vs =
   keyed new_key (filter (\<lambda>(path, x). visible path) (leaves_seq i vs))"
proof (induction vs arbitrary: i)
  case Nil
  then show ?case by (simp add: keyed_def)
next
  case (Cons v vs)
  have "filter (\<lambda>(path, x). visible path) (leaves_seq i (v # vs)) =
        (case v of Scalar x \<Rightarrow> [([Index i], x)] | _ \<Rightarrow> []) @
        filter (\<lambda>(path, x). visible path) (leaves_seq (Suc i) vs)"
    by (simp add: filter_visible_Index)
  then show ?case
    by (cases v) (simp_all add: Cons keyed_def)
qed

lemma flatten_items_visible:
  "dict_update acc (flatten_items d p) =
   dict_update acc (keyed p (filter (\<lambda>(path, x). visible path) (leaves_dict d)))"
proof (induction d p arbitrary: acc rule: flatten_items.induct)
  case (1 parent_key)
  then show ?case by (simp add: keyed_def)
next
  case (2 k v d parent_key)
  define new_key where "new_key = (if parent_key \<noteq> [] then parent_key @ ''_'' @ k else k)"
  let ?vis = "\<lambda>ls :: (step list \<times> 'a) list. filter (\<lambda>(path, x). visible path) ls"
  have rest: "\<And>acc. dict_update acc (flatten_items d parent_key) =
                    dict_update acc (keyed parent_key (?vis (leaves_dict d)))"
    using 2 by (simp add: new_key_def)
  have split: "keyed parent_key (?vis (leaves_dict ((k, v) # d))) =
               keyed new_key (?vis (leaves v)) @ keyed parent_key (?vis (leaves_dict d))"
    by (simp add: filter_visible_Key keyed_append keyed_Key new_key_def)
  show ?case
  proof (cases v)
    case (Scalar x)
    have fi: "flatten_items ((k, v) # d) parent_key = (new_key, x) # flatten_items d parent_key"
      using Scalar by (simp add: new_key_def)
    have lv: "keyed new_key (?vis (leaves v)) = [(new_key, x)]"
      using Scalar by (simp add: keyed_def)
    show ?thesis
      by (simp only: fi split lv dict_update_Cons append_Cons append_Nil rest)
  next
    case (Dict d')
    with 2 have inner: "\<And>acc. dict_update acc (flatten_items d' new_key) =
                       dict_update acc (keyed new_key (?vis (leaves_dict d')))"
      by (simp add: new_key_def)
    have fi: "flatten_items ((k, v) # d) parent_key =
          py_dict (flatten_items d' new_key) @ flatten_items d parent_key"
      using Dict by (simp add: new_key_def)
    have lv: "leaves v = leaves_dict d'" using Dict by simp
    show ?thesis
      by (simp only: fi split lv dict_update_append dict_update_py_dict inner rest)
  next
    case (Seq vs)
    have fi: "flatten_items ((k, v) # d) parent_key =
          flatten_list new_key 0 vs @ flatten_items d parent_key"
      using Seq by (simp add: new_key_def)
    have lv: "leaves v = leaves_seq 0 vs" using Seq by simp
    show ?thesis
      by (simp only: fi split lv dict_update_append flatten_list_visible rest)
  qed
qed

lemma path_key_Index_last:
  "path_key p (path @ [Index i]) = path_key p path @ ''_'' @ str_nat i"
  by (induction p path rule: path_key.induct) simp_all

text \<open>
  C5. For every nested record and every prefix, the flat output of the flattener is the
  dict built, in traversal order, from the visible leaves of the record and from nothing
  else, each under the flat key of its path. A leaf inside a mapping or a sequence that
  is an element of a sequence is not visible, so such an element contributes no key and
  none of its inner leaves reaches the output; a scalar element \<open>e\<close> at index \<open>i\<close> of a
  sequence reached under mappings only is visible and is entered under the key of the
  sequence followed by \<open>_i\<close>. Looking up a key gives the value of the last visible leaf
  with that key.
\<close>

theorem flatten_dict_visible_leaves:
  "flatten_dict d p = py_dict (keyed p (visible_leaves (Dict d)))
   \<and> map_of (flatten_dict d p) = map_of (rev (keyed p (visible_leaves (Dict d))))
   \<and> path_key p (path @ [Index i]) = path_key p path @ ''_'' @ str_nat i"
proof -
  have a: "flatten_dict d p = py_dict (keyed p (visible_leaves (Dict d)))"
    using flatten_items_visible[of "[]" d p]
    by (simp add: flatten_dict_def py_dict_def visible_leaves_def)
  then have "map_of (flatten_dict d p) = map_of (rev (keyed p (visible_leaves (Dict d))))"
    by (simp add: py_dict_def map_of_dict_update)
  with a path_key_Index_last[of p path i] show ?thesis by simp
qed

text \<open>
  On \<open>{"a": {"b": [1, {"z": 9}, [8], 2]}, "c": [{"y": 7}]}\<close> the leaves 9, 8 and 7 are not
  visible; the flat output is \<open>{"a_b_0": 1, "a_b_3": 2}\<close>.
\<close>

lemma nested_record_flat:
  "leaves (Dict nested_record) =
     [([Key ''a'', Key ''b'', Index 0], 1), ([Key ''a'', Key ''b'', Index 1, Key ''z''], 9),
      ([Key ''a'', Key ''b'', Index 2, Index 0], 8), ([Key ''a'', Key ''b'', Index 3], 2),
      ([Key ''c'', Index 0, Key ''y''], 7)]"
  "visible_leaves (Dict nested_record) =
     [([Key ''a'', Key ''b'', Index 0], 1), ([Key ''a'', Key ''b'', Index 3], 2)]"
  "flatten_dict nested_record [] = [(''a_b_0'', 1), (''a_b_3'', 2)]"
  by (simp_all add: nested_record_def visible_leaves_def flatten_dict_def py_dict_def
      dict_update_def str_nat.simps digit_char_def)


section \<open>Results about duplicate labels and column selection\<close>

lemma keep_unseen_Nil: "keep_unseen label seen [] = []"
  by (simp add: keep_unseen_def)

lemma keep_unseen_Cons:
  "keep_unseen label seen (x # xs) =
     (if label x \<in> set seen then keep_unseen label (label x # seen) xs
      else x # keep_unseen label (label x # seen) xs)"
  by (simp add: keep_unseen_def)

lemma keep_unseen_labels:
  "set (map label (keep_unseen label seen xs)) = set (map label xs) - set seen"
  by (induction xs arbitrary: seen) (auto simp: keep_unseen_Nil keep_unseen_Cons)

lemma keep_unseen_label_notin:
  "x \<in> set (keep_unseen label seen xs) \<Longrightarrow> label x \<notin> set seen"
  using keep_unseen_labels[of label seen xs] by auto

lemma keep_unseen_distinct: "distinct (map label (keep_unseen label seen xs))"
proof (induction xs arbitrary: seen)
  case Nil
  then show ?case by (simp add: keep_unseen_Nil)
next
  case (Cons x xs)
  have "\<forall>y\<in>set (keep_unseen label (label x # seen) xs). label y \<noteq> label x"
    using keep_unseen_label_notin[of _ label "label x # seen" xs] by fastforce
  then have "label x \<notin> label ` set (keep_unseen label (label x # seen) xs)"
    by fastforce
  with Cons show ?case by (simp add: keep_unseen_Cons)
qed

lemma keep_unseen_subset: "set (keep_unseen label seen xs) \<subseteq> set xs"
  by (induction xs arbitrary: seen) (auto simp: keep_unseen_Nil keep_unseen_Cons split: if_splits)

lemma keep_unseen_map_of:
  "map_of (keep_unseen fst seen df) n = (if n \<in> set seen then None else map_of df n)"
proof (induction df arbitrary: seen)
  case Nil
  then show ?case by (simp add: keep_unseen_Nil)
next
  case (Cons c df)
  show ?case
    by (cases c) (auto simp: keep_unseen_Cons Cons)
qed

lemma drop_duplicated_distinct: "distinct (columns (drop_duplicated df))"
  by (simp add: columns_def drop_duplicated_def keep_first_def keep_unseen_distinct)

lemma drop_duplicated_columns: "set (columns (drop_duplicated df)) = set (columns df)"
  using keep_unseen_labels[of fst "[]" df]
  by (simp add: columns_def drop_duplicated_def keep_first_def)

lemma drop_duplicated_map_of: "map_of (drop_duplicated df) = map_of df"
  by (rule ext) (simp add: drop_duplicated_def keep_first_def keep_unseen_map_of)

lemma filter_label_distinct:
  "distinct (map fst df) \<Longrightarrow> filter (\<lambda>c. fst c = l) df = (case map_of df l of None \<Rightarrow> [] | Some vs \<Rightarrow> [(l, vs)])"
proof (induction df)
  case Nil
  then show ?case by simp
next
  case (Cons c df)
  obtain n ws where c: "c = (n, ws)" by (cases c)
  show ?case
  proof (cases "n = l")
    case True
    with Cons.prems c have "l \<notin> fst ` set df" by auto
    then have "filter (\<lambda>c. fst c = l) df = []" by (auto simp: filter_empty_conv)
    with True c show ?thesis by simp
  next
    case False
    with Cons c show ?thesis by simp
  qed
qed

lemma select_cols_distinct:
  "distinct (map fst df) \<Longrightarrow> set labels \<subseteq> set (map fst df) \<Longrightarrow>
   select_cols labels df = map (\<lambda>l. (l, the (map_of df l))) labels"
proof (induction labels)
  case Nil
  then show ?case by (simp add: select_cols_def)
next
  case (Cons l labels)
  from Cons.prems obtain vs where "map_of df l = Some vs"
    by (auto simp: map_of_eq_None_iff[symmetric] simp del: map_of_eq_None_iff)
  with Cons show ?case by (simp add: select_cols_def filter_label_distinct)
qed

lemma map_of_key_pairs:
  "distinct (map fst df) \<Longrightarrow> map (\<lambda>l. (l, the (map_of df l))) (map fst df) = df"
proof -
  assume d: "distinct (map fst df)"
  have "\<And>c. c \<in> set df \<Longrightarrow> (fst c, the (map_of df (fst c))) = c"
  proof -
    fix c assume "c \<in> set df"
    then have "map_of df (fst c) = Some (snd c)" using d by simp
    then show "(fst c, the (map_of df (fst c))) = c" by simp
  qed
  then show ?thesis by (simp add: comp_def map_idI)
qed

lemma organize_labels:
  "distinct xs \<Longrightarrow>
   mset (filter (\<lambda>c. c \<in> set xs) priority_cols @
         filter (\<lambda>c. c \<notin> set (filter (\<lambda>c. c \<in> set xs) priority_cols)) xs) = mset xs"
proof -
  assume d: "distinct xs"
  have dp: "distinct priority_cols" by (simp add: priority_cols_def)
  have "mset (filter (\<lambda>c. c \<in> set xs) priority_cols) = mset (filter (\<lambda>c. c \<in> set priority_cols) xs)"
    using d dp by (intro set_eq_iff_mset_eq_distinct[THEN iffD1]) auto
  moreover have "filter (\<lambda>c. c \<notin> set (filter (\<lambda>c. c \<in> set xs) priority_cols)) xs =
                 filter (\<lambda>c. \<not> c \<in> set priority_cols) xs"
    by (rule filter_cong) auto
  ultimately show ?thesis by simp
qed

lemma organize_columns_perm:
  assumes "distinct (columns df)"
  shows "columns (organize_columns df) =
           filter (\<lambda>c. c \<in> set (columns df)) priority_cols @
           filter (\<lambda>c. c \<notin> set priority_cols) (columns df)
       \<and> mset (organize_columns df) = mset df
       \<and> map_of (organize_columns df) = map_of df"
proof -
  let ?ex = "filter (\<lambda>c. c \<in> set (columns df)) priority_cols"
  let ?ot = "filter (\<lambda>c. c \<notin> set ?ex) (columns df)"
  let ?f = "\<lambda>l. (l, the (map_of df l))"
  have d: "distinct (map fst df)" using assms by (simp add: columns_def)
  have sub: "set (?ex @ ?ot) \<subseteq> set (map fst df)" by (auto simp: columns_def)
  have org: "organize_columns df = map ?f (?ex @ ?ot)"
    using select_cols_distinct[OF d sub] by (simp add: organize_columns_def Let_def)
  have ot: "?ot = filter (\<lambda>c. c \<notin> set priority_cols) (columns df)"
    by (rule filter_cong) auto
  have cols: "columns (organize_columns df) = ?ex @ ?ot"
    unfolding org columns_def by (simp add: comp_def)
  have perm: "mset (?ex @ ?ot) = mset (map fst df)"
    using organize_labels[of "columns df"] assms by (simp add: columns_def)
  have "mset (organize_columns df) = image_mset ?f (mset (?ex @ ?ot))"
    unfolding org by simp
  also have "\<dots> = image_mset ?f (mset (map fst df))" by (simp only: perm)
  also have "\<dots> = mset (map ?f (map fst df))" by (simp only: mset_map)
  also have "\<dots> = mset df" by (simp only: map_of_key_pairs[OF d])
  finally have m: "mset (organize_columns df) = mset df" .
  have dist': "distinct (map fst (organize_columns df))"
    using cols perm d
    by (metis columns_def mset_eq_imp_distinct_iff)
  have "map_of (organize_columns df) = map_of df"
    using m d dist' by (intro map_of_inject_set[THEN iffD2]) (auto dest: mset_eq_setD)
  with cols ot m show ?thesis by simp
qed

lemma drop_cols_columns: "set (columns (drop_cols ls df)) = set (columns df) - set ls"
  by (auto simp: drop_cols_def columns_def)

lemma drop_cols_distinct: "distinct (columns df) \<Longrightarrow> distinct (columns (drop_cols ls df))"
  by (simp add: drop_cols_def columns_def distinct_map_filter)

lemma drop_cols_subset: "set (drop_cols ls df) \<subseteq> set df"
  by (auto simp: drop_cols_def)

text \<open>
  C9. For every table whose column names are unique: the names of the organized table
  are the priority names that occur in the table, in priority order, followed by the
  other names in their previous order; the organized table has the same columns, each
  with the same name and the same cells, every one exactly once (equal multisets of
  columns); and looking a name up gives the same cells as before.
\<close>

theorem organize_columns_permutes:
  assumes "distinct (columns df)"
  shows "columns (organize_columns df) =
           filter (\<lambda>c. c \<in> set (columns df)) priority_cols @
           filter (\<lambda>c. c \<notin> set priority_cols) (columns df)
       \<and> mset (organize_columns df) = mset df
       \<and> map_of (organize_columns df) = map_of df"
  using assms by (rule organize_columns_perm)

theorem organize_columns_permutes_witness:
  "distinct (columns shuffled_frame)
   \<and> columns (organize_columns shuffled_frame) = [''category'', ''price'', ''fb_slug'', ''url'']
   \<and> mset (organize_columns shuffled_frame) = mset shuffled_frame"
proof -
  have d: "distinct (columns shuffled_frame)" by code_simp
  have "filter (\<lambda>c. c \<in> set (columns shuffled_frame)) priority_cols @
        filter (\<lambda>c. c \<notin> set priority_cols) (columns shuffled_frame) =
        [''category'', ''price'', ''fb_slug'', ''url'']"
    by code_simp
  with organize_columns_permutes[OF d] d show ?thesis by simp
qed

section \<open>Results about the numeric columns\<close>













section \<open>Results about the indexed groups\<close>

lemma collect_Inr:
  "collect rs = Inr vs \<Longrightarrow> length vs = length rs \<and> (\<forall>i<length rs. rs ! i = Inr (vs ! i))"
proof (induction rs arbitrary: vs rule: collect.induct)
  case 1
  then show ?case by simp
next
  case (2 e rs)
  then show ?case by simp
next
  case (3 v rs)
  then obtain ws where ws: "collect rs = Inr ws" and vs: "vs = v # ws"
    by (auto split: sum.splits)
  with 3 have "length ws = length rs \<and> (\<forall>i<length rs. rs ! i = Inr (ws ! i))" by simp
  then show ?case using vs by (auto simp: nth_Cons split: nat.splits)
qed

lemma join_row_empty:
  "\<forall>v\<in>set x. v = Missing \<or> v = Str [] \<Longrightarrow> join_row x = Inr (Str [])"
proof -
  assume "\<forall>v\<in>set x. v = Missing \<or> v = Str []"
  then have "filter (\<lambda>v. v \<noteq> Str [] \<and> v \<noteq> Num 0) (filter (\<lambda>v. v \<noteq> Missing) x) = []"
    by (auto simp: filter_empty_conv)
  then show ?thesis by (simp add: join_row_def)
qed

lemma select_cols_mem:
  "c \<in> set (select_cols labels df) \<Longrightarrow> c \<in> set df \<and> fst c \<in> set labels"
  by (auto simp: select_cols_def)

lemma not_matches_self: "\<not> matches_group g g"
  by (simp add: matches_group_def)

lemma set_column_mem: "(g, ws) \<in> set (set_column g vs df) \<Longrightarrow> ws = vs"
  by (force simp: set_column_def columns_def split: if_splits)

lemma set_column_columns: "g \<in> set (columns (set_column g vs df))"
  by (force simp: set_column_def columns_def)

lemma tag_groups_apart: "g \<in> set tag_groups \<Longrightarrow> h \<in> set tag_groups \<Longrightarrow> g \<noteq> h \<Longrightarrow> apart g h"
  unfolding apart_def
proof (intro conjI allI)
  assume a: "g \<in> set tag_groups" "h \<in> set tag_groups" "g \<noteq> h"
  then show "g \<noteq> h" by simp
  from a show "\<not> matches_group h g" by (auto simp: tag_groups_def matches_group_def)
  from a show "\<not> matches_group g h" by (auto simp: tag_groups_def matches_group_def)
  fix n
  from a show "\<not> (matches_group g n \<and> matches_group h n)"
    by (cases n) (auto simp: tag_groups_def matches_group_def)
qed

lemma combine_group_cases:
  fixes df :: "'n::zero frame"
  assumes "combine_group h df = Inr df1"
  shows "df1 = df \<or>
         (\<exists>vs. length vs = nrows df \<and>
               df1 = drop_cols (filter (matches_group h) (columns df)) (set_column h vs df))"
proof (cases "filter (matches_group h) (columns df) = []")
  case True
  with assms show ?thesis by (simp add: combine_group_def)
next
  case False
  with assms obtain vs where
    vs: "collect (map join_row (rows_of (select_cols (filter (matches_group h) (columns df)) df)
           (nrows df))) = Inr vs"
    and df1: "df1 = drop_cols (filter (matches_group h) (columns df)) (set_column h vs df)"
    by (auto simp: combine_group_def Let_def split: sum.splits)
  from collect_Inr[OF vs] have "length vs = nrows df" by (simp add: rows_of_def)
  with df1 show ?thesis by blast
qed

lemma set_column_filter_other:
  "\<not> P h \<Longrightarrow> filter (\<lambda>c. P (fst c)) (set_column h vs df) = filter (\<lambda>c. P (fst c)) df"
proof -
  assume nP: "\<not> P h"
  have "filter (\<lambda>c. P (fst c)) (map (\<lambda>(n, ws). if n = h then (n, vs) else (n, ws)) df) =
        filter (\<lambda>c. P (fst c)) df"
    using nP by (induction df) (auto split: if_splits)
  with nP show ?thesis by (simp add: set_column_def)
qed

lemma drop_cols_filter_other:
  "\<forall>n\<in>set m. \<not> P n \<Longrightarrow> filter (\<lambda>c. P (fst c)) (drop_cols m df) = filter (\<lambda>c. P (fst c)) df"
  unfolding drop_cols_def by (induction df) auto

lemma combine_group_keeps:
  fixes df :: "'n::zero frame"
  assumes res: "combine_group h df = Inr df1" and nh: "\<not> P h"
    and nm: "\<forall>n. matches_group h n \<longrightarrow> \<not> P n"
  shows "filter (\<lambda>c. P (fst c)) df1 = filter (\<lambda>c. P (fst c)) df"
proof -
  from combine_group_cases[OF res] show ?thesis
  proof
    assume "df1 = df" then show ?thesis by simp
  next
    assume "\<exists>vs. length vs = nrows df \<and>
               df1 = drop_cols (filter (matches_group h) (columns df)) (set_column h vs df)"
    then obtain vs where
      df1: "df1 = drop_cols (filter (matches_group h) (columns df)) (set_column h vs df)" by blast
    have "\<forall>n\<in>set (filter (matches_group h) (columns df)). \<not> P n" using nm by simp
    then have "filter (\<lambda>c. P (fst c)) df1 = filter (\<lambda>c. P (fst c)) (set_column h vs df)"
      unfolding df1 by (rule drop_cols_filter_other)
    also have "\<dots> = filter (\<lambda>c. P (fst c)) df"
      using nh by (rule set_column_filter_other)
    finally show ?thesis .
  qed
qed

lemma set_column_rect:
  "rect df \<Longrightarrow> length vs = nrows df \<Longrightarrow> df \<noteq> [] \<Longrightarrow>
   \<forall>c\<in>set (set_column h vs df). length (snd c) = nrows df"
  by (auto simp: rect_def set_column_def split: if_splits)

lemma nrows_first: "df \<noteq> [] \<Longrightarrow> \<forall>c\<in>set df. length (snd c) = k \<Longrightarrow> nrows df = k"
  by (cases df) (auto simp: nrows_def)

lemma combine_group_rect:
  fixes df :: "'n::zero frame"
  assumes res: "combine_group h df = Inr df1" and r: "rect df"
  shows "rect df1 \<and> nrows df1 = nrows df"
proof -
  from combine_group_cases[OF res] show ?thesis
  proof
    assume "df1 = df" with r show ?thesis by simp
  next
    assume "\<exists>vs. length vs = nrows df \<and>
               df1 = drop_cols (filter (matches_group h) (columns df)) (set_column h vs df)"
    then obtain vs where len: "length vs = nrows df" and
      df1: "df1 = drop_cols (filter (matches_group h) (columns df)) (set_column h vs df)" by blast
    from res have ne: "df \<noteq> []"
      using df1 len by (cases df) (auto simp: combine_group_def columns_def drop_cols_def set_column_def)
    have all: "\<forall>c\<in>set df1. length (snd c) = nrows df"
      using set_column_rect[OF r len ne, of h] drop_cols_subset unfolding df1 by blast
    have "h \<in> set (columns df1)"
      using set_column_columns[of h vs df]
      by (simp add: df1 drop_cols_columns not_matches_self)
    then have "df1 \<noteq> []" by (auto simp: columns_def)
    from nrows_first[OF this all] all show ?thesis by (simp add: rect_def)
  qed
qed


lemma row_done_filter:
  "filter (\<lambda>c. fst c = g) df1 = filter (\<lambda>c. fst c = g) df \<Longrightarrow> row_done g i df \<Longrightarrow> row_done g i df1"
proof -
  assume eq: "filter (\<lambda>c. fst c = g) df1 = filter (\<lambda>c. fst c = g) df" and d: "row_done g i df"
  have mem: "\<And>vs. (g, vs) \<in> set df1 \<longleftrightarrow> (g, vs) \<in> set df"
  proof -
    fix vs
    have "(g, vs) \<in> set df1 \<longleftrightarrow> (g, vs) \<in> set (filter (\<lambda>c. fst c = g) df1)" by simp
    also have "\<dots> \<longleftrightarrow> (g, vs) \<in> set (filter (\<lambda>c. fst c = g) df)" by (simp only: eq)
    also have "\<dots> \<longleftrightarrow> (g, vs) \<in> set df" by simp
    finally show "(g, vs) \<in> set df1 \<longleftrightarrow> (g, vs) \<in> set df" .
  qed
  from d obtain vs where "(g, vs) \<in> set df" by (auto simp: row_done_def columns_def)
  then have "(g, vs) \<in> set df1" by (simp add: mem)
  then have "g \<in> set (columns df1)" by (force simp: columns_def)
  with d mem show ?thesis by (simp add: row_done_def)
qed

lemma row_empty_filter:
  "filter (\<lambda>c. matches_group g (fst c)) df1 = filter (\<lambda>c. matches_group g (fst c)) df \<Longrightarrow>
   row_empty g i df \<Longrightarrow> row_empty g i df1"
proof -
  assume eq: "filter (\<lambda>c. matches_group g (fst c)) df1 = filter (\<lambda>c. matches_group g (fst c)) df"
    and e: "row_empty g i df"
  have cols: "\<And>d :: 'a frame. filter (matches_group g) (columns d) =
                map fst (filter (\<lambda>c. matches_group g (fst c)) d)"
    by (simp add: columns_def filter_map comp_def)
  have mem: "\<And>c. c \<in> set df1 \<and> matches_group g (fst c) \<longleftrightarrow> c \<in> set df \<and> matches_group g (fst c)"
  proof -
    fix c
    have "c \<in> set df1 \<and> matches_group g (fst c) \<longleftrightarrow>
          c \<in> set (filter (\<lambda>c. matches_group g (fst c)) df1)" by simp
    also have "\<dots> \<longleftrightarrow> c \<in> set (filter (\<lambda>c. matches_group g (fst c)) df)" by (simp only: eq)
    also have "\<dots> \<longleftrightarrow> c \<in> set df \<and> matches_group g (fst c)" by simp
    finally show "c \<in> set df1 \<and> matches_group g (fst c) \<longleftrightarrow> c \<in> set df \<and> matches_group g (fst c)" .
  qed
  from e have "filter (matches_group g) (columns df1) \<noteq> []"
    by (simp add: row_empty_def cols eq)
  moreover from e mem have "\<forall>c\<in>set df1. matches_group g (fst c) \<longrightarrow>
      snd c ! i = Missing \<or> snd c ! i = Str []"
    unfolding row_empty_def by blast
  ultimately show ?thesis by (simp add: row_empty_def)
qed

lemma combine_group_row_done:
  fixes df :: "'n::zero frame"
  assumes "combine_group h df = Inr df1" "apart g h" "row_done g i df"
  shows "row_done g i df1"
proof -
  from assms(2) have "\<not> (h = g)" and "\<forall>n. matches_group h n \<longrightarrow> \<not> (n = g)"
    by (auto simp: apart_def)
  from combine_group_keeps[of h df df1 "\<lambda>n. n = g", OF assms(1) this]
  show ?thesis using assms(3) by (rule row_done_filter)
qed

lemma combine_groups_row_done:
  fixes df :: "'n::zero frame"
  shows "combine_groups gs df = Inr df' \<Longrightarrow> \<forall>h\<in>set gs. apart g h \<Longrightarrow> row_done g i df \<Longrightarrow>
         row_done g i df'"
proof (induction gs arbitrary: df)
  case Nil
  then show ?case by simp
next
  case (Cons h gs)
  from Cons.prems(1) obtain df1 where h: "combine_group h df = Inr df1"
    and rest: "combine_groups gs df1 = Inr df'"
    by (auto split: sum.splits)
  from h Cons.prems have "row_done g i df1" by (intro combine_group_row_done[of h df df1]) simp_all
  with Cons rest show ?case by simp
qed

lemma combine_group_row_empty:
  fixes df :: "'n::zero frame"
  assumes "combine_group h df = Inr df1" "apart g h" "row_empty g i df"
  shows "row_empty g i df1"
proof -
  from assms(2) have "\<not> matches_group g h" and "\<forall>n. matches_group h n \<longrightarrow> \<not> matches_group g n"
    by (auto simp: apart_def)
  from combine_group_keeps[of h df df1 "matches_group g", OF assms(1) this]
  show ?thesis using assms(3) by (rule row_empty_filter)
qed

lemma combine_group_empty_row:
  fixes df :: "'n::zero frame"
  assumes res: "combine_group g df = Inr df'" and i: "i < nrows df" and e: "row_empty g i df"
  shows "row_done g i df'"
proof -
  from e have some: "filter (matches_group g) (columns df) \<noteq> []"
    and empty: "\<forall>c\<in>set df. matches_group g (fst c) \<longrightarrow> snd c ! i = Missing \<or> snd c ! i = Str []"
    by (simp_all add: row_empty_def)
  define m where "m = filter (matches_group g) (columns df)"
  define rows where "rows = rows_of (select_cols m df) (nrows df)"
  from res some obtain vs where vs: "collect (map join_row rows) = Inr vs"
    and df': "df' = drop_cols m (set_column g vs df)"
    by (auto simp: combine_group_def Let_def m_def rows_def split: sum.splits)
  have len: "length rows = nrows df" by (simp add: rows_def rows_of_def)
  have row: "rows ! i = map (\<lambda>(_, ws). ws ! i) (select_cols m df)"
    using i by (simp add: rows_def rows_of_def)
  have "\<forall>v\<in>set (rows ! i). v = Missing \<or> v = Str []"
  proof
    fix v assume "v \<in> set (rows ! i)"
    then obtain c where c: "c \<in> set (select_cols m df)" and v: "v = snd c ! i"
      unfolding row by (auto simp: case_prod_unfold)
    from select_cols_mem[OF c] have "c \<in> set df" and "matches_group g (fst c)"
      by (simp_all add: m_def)
    with empty v show "v = Missing \<or> v = Str []" by blast
  qed
  then have "join_row (rows ! i) = Inr (Str [])" by (rule join_row_empty)
  moreover from collect_Inr[OF vs] i len have "map join_row rows ! i = Inr (vs ! i)" by simp
  ultimately have cell: "vs ! i = Str []" using i len by simp
  have "g \<notin> set m" by (simp add: m_def not_matches_self)
  then have "g \<in> set (columns df')"
    using set_column_columns[of g vs df] by (simp add: df' drop_cols_columns)
  moreover have "\<forall>ws. (g, ws) \<in> set df' \<longrightarrow> ws ! i = Str []"
    using cell set_column_mem[of g _ vs df] drop_cols_subset[of m] unfolding df' by blast
  ultimately show ?thesis by (simp add: row_done_def)
qed

lemma combine_groups_empty_row:
  fixes df :: "'n::zero frame"
  shows "combine_groups gs df = Inr df' \<Longrightarrow> g \<in> set gs \<Longrightarrow> distinct gs \<Longrightarrow>
         \<forall>h\<in>set gs. h \<noteq> g \<longrightarrow> apart g h \<Longrightarrow> rect df \<Longrightarrow> i < nrows df \<Longrightarrow>
         row_empty g i df \<Longrightarrow> row_done g i df'"
proof (induction gs arbitrary: df)
  case Nil
  then show ?case by simp
next
  case (Cons h gs)
  from Cons.prems(1) obtain df1 where h: "combine_group h df = Inr df1"
    and rest: "combine_groups gs df1 = Inr df'"
    by (auto split: sum.splits)
  show ?case
  proof (cases "h = g")
    case True
    with h Cons.prems have "row_done g i df1" by (intro combine_group_empty_row[of g df df1]) simp_all
    moreover from True Cons.prems have "\<forall>k\<in>set gs. apart g k" by auto
    ultimately show ?thesis using rest by (intro combine_groups_row_done[of gs df1 df'])
  next
    case False
    with Cons.prems have ap: "apart g h" by simp
    from combine_group_rect[OF h Cons.prems(5)] have r1: "rect df1" and n1: "nrows df1 = nrows df"
      by simp_all
    from combine_group_row_empty[OF h ap Cons.prems(7)] have e1: "row_empty g i df1" .
    from False Cons.prems(2) have "g \<in> set gs" by simp
    with Cons.IH[OF rest] Cons.prems r1 n1 e1 show ?thesis by simp
  qed
qed

text \<open>
  C10. In a rectangular table, take one of the three groups for which at least one
  column matches the pattern, and a row in which every matched column is missing or the
  empty string. Whenever clean_tag_columns returns, the column named after the group is
  present in its result and holds the empty string in that row: \<open>Str []\<close>, a present
  cell, not \<open>Missing\<close>.
\<close>

theorem empty_row_empty_string:
  fixes df :: "'n::zero frame"
  assumes res: "clean_tag_columns df = Inr df'"
    and g: "g \<in> set tag_groups"
    and some: "filter (matches_group g) (columns df) \<noteq> []"
    and r: "rect df"
    and i: "i < nrows df"
    and empty: "\<forall>c\<in>set df. matches_group g (fst c) \<longrightarrow> snd c ! i = Missing \<or> snd c ! i = Str []"
  shows "g \<in> set (columns df') \<and> (\<forall>vs. (g, vs) \<in> set df' \<longrightarrow> vs ! i = Str [])"
proof -
  have "distinct tag_groups" by (simp add: tag_groups_def)
  moreover have "\<forall>h\<in>set tag_groups. h \<noteq> g \<longrightarrow> apart g h"
    using g tag_groups_apart by blast
  moreover have "row_empty g i df" using some empty by (simp add: row_empty_def)
  ultimately have "row_done g i df'"
    using res g r i unfolding clean_tag_columns_def
    by (intro combine_groups_empty_row[of tag_groups df df' g i])
  then show ?thesis by (simp add: row_done_def)
qed

theorem empty_row_empty_string_witness:
  "clean_tag_columns slugs_frame =
     Inr [(''tag_slugs'', [Str ''veg, spicy'', Str []]), (''service_slugs'', [Str ''dine'', Str ''dine''])]
   \<and> ''tag_slugs'' \<in> set tag_groups
   \<and> filter (matches_group ''tag_slugs'') (columns slugs_frame) \<noteq> []
   \<and> rect slugs_frame
   \<and> 1 < nrows slugs_frame
   \<and> list_all (\<lambda>c. \<not> matches_group ''tag_slugs'' (fst c) \<or>
                      snd c ! 1 = Missing \<or> snd c ! 1 = Str []) slugs_frame
   \<and> [Str ''veg, spicy'', Str [] :: int cell] ! 1 = Str []"
proof -
  let ?t = "[(''tag_slugs'', [Str ''veg, spicy'', Str [] :: int cell]),
             (''service_slugs'', [Str ''dine'', Str ''dine''])]"
  have r: "clean_tag_columns slugs_frame = Inr ?t"
    by code_simp
  have g: "''tag_slugs'' \<in> set tag_groups" by code_simp
  have s: "filter (matches_group ''tag_slugs'') (columns slugs_frame) \<noteq> []"
    by code_simp
  have c: "rect slugs_frame" by code_simp
  have i: "1 < nrows slugs_frame" by code_simp
  have l: "list_all (\<lambda>c. \<not> matches_group ''tag_slugs'' (fst c) \<or>
                      snd c ! 1 = Missing \<or> snd c ! 1 = Str []) slugs_frame"
    by code_simp
  then have e: "\<forall>c\<in>set slugs_frame. matches_group ''tag_slugs'' (fst c) \<longrightarrow>
         snd c ! 1 = Missing \<or> snd c ! 1 = Str []"
    by (auto simp: list_all_iff)
  from empty_row_empty_string[OF r g s c i e]
  have "\<forall>vs. (''tag_slugs'', vs) \<in> set ?t \<longrightarrow> vs ! 1 = Str []"
    by blast
  then have "[Str ''veg, spicy'', Str [] :: int cell] ! 1 = Str []"
    by simp
  with r g s c i l show ?thesis by blast
qed

section \<open>Results about the row order\<close>

lemma take_rows_columns: "columns (take_rows idx df) = columns df"
  by (simp add: take_rows_def columns_def case_prod_unfold comp_def)

lemma take_rows_mem:
  "(n, vs) \<in> set (take_rows idx df) \<Longrightarrow> \<exists>vs0. (n, vs0) \<in> set df \<and> vs = map ((!) vs0) idx"
  by (auto simp: take_rows_def)

lemma take_rows_map_of:
  "map_of (take_rows idx df) n = map_option (\<lambda>vs. map ((!) vs) idx) (map_of df n)"
  by (induction df) (auto simp: take_rows_def)

lemma filter_label_first:
  "filter (\<lambda>c. fst c = key) df = c # rest \<Longrightarrow> map_of df key = Some (snd c)"
  by (induction df) (auto split: if_splits)

lemma sort_column_Inr: "sort_column key df = Inr vs \<Longrightarrow> map_of df key = Some vs"
  by (auto simp: sort_column_def split: list.splits dest: filter_label_first)

lemma sort_values_two:
  "sort_values [k1, k2] df = Inr t \<Longrightarrow>
   \<exists>a b. sort_column k1 df = Inr a \<and> sort_column k2 df = Inr b \<and>
         t = take_rows (sort_indexer [a, b] (nrows df)) df"
  by (cases "sort_column k1 df"; cases "sort_column k2 df") (auto simp: sort_values_def)

lemma sort_indexer_perm: "mset (sort_indexer keys n) = mset [0..<n]"
  by (simp add: sort_indexer_def)

lemma sort_indexer_sorted:
  "sorted (map (\<lambda>i. map (\<lambda>vs. vs ! i) keys) (sort_indexer keys n))"
  by (simp add: sort_indexer_def)

lemma pair_keys_sorted:
  fixes a b :: "'n::linorder cell list"
  assumes "sorted (map (\<lambda>i. [a ! i, b ! i]) idx)"
  shows "sorted_wrt (\<lambda>(c1, p1) (c2, p2). c1 < c2 \<or> (c1 = c2 \<and> p1 \<le> p2))
           (zip (map ((!) a) idx) (map ((!) b) idx))"
proof -
  have z: "zip (map ((!) a) idx) (map ((!) b) idx) = map (\<lambda>i. (a ! i, b ! i)) idx"
    by (induction idx) auto
  have "sorted_wrt (\<lambda>i j. [a ! i, b ! i] \<le> [a ! j, b ! j]) idx"
    using assms by (simp add: sorted_map)
  then have "sorted_wrt (\<lambda>i j. a ! i < a ! j \<or> (a ! i = a ! j \<and> b ! i \<le> b ! j)) idx"
    by (rule sorted_wrt_mono_rel[rotated]) (auto simp: less_eq_list_code)
  then show ?thesis
    unfolding z by (simp add: sorted_wrt_map)
qed

text \<open>
  C7. Whenever process_menu_data returns a table, that table is the unsorted table with
  its rows permuted, it has a category and a price column, and its rows are in ascending
  order of category and, among equal categories, in ascending order of price (in the
  order of cells given above, missing cells last).
\<close>

theorem rows_sorted:
  fixes df :: "'n::{zero,linorder} frame"
  assumes "process_menu_data parse df = Inr t"
  shows "\<exists>u idx cat price.
           unsorted parse df = Inr u \<and> mset idx = mset [0..<nrows u] \<and> t = take_rows idx u \<and>
           map_of t ''category'' = Some cat \<and> map_of t ''price'' = Some price \<and>
           sorted_wrt (\<lambda>(c1, p1) (c2, p2). c1 < c2 \<or> (c1 = c2 \<and> p1 \<le> p2)) (zip cat price)"
proof -
  from assms obtain u where u: "unsorted parse df = Inr u"
    and s: "sort_values [''category'', ''price''] u = Inr t"
    by (auto simp: process_menu_data_def split: sum.splits)
  from sort_values_two[OF s] obtain a b where
    a: "sort_column ''category'' u = Inr a" and b: "sort_column ''price'' u = Inr b" and
    t: "t = take_rows (sort_indexer [a, b] (nrows u)) u"
    by blast
  let ?idx = "sort_indexer [a, b] (nrows u)"
  have "sorted (map (\<lambda>i. [a ! i, b ! i]) ?idx)"
    using sort_indexer_sorted[of "[a, b]" "nrows u"] by simp
  then have "sorted_wrt (\<lambda>(c1, p1) (c2, p2). c1 < c2 \<or> (c1 = c2 \<and> p1 \<le> p2))
           (zip (map ((!) a) ?idx) (map ((!) b) ?idx))"
    by (rule pair_keys_sorted)
  moreover have "map_of t ''category'' = Some (map ((!) a) ?idx)"
    using sort_column_Inr[OF a] by (simp add: t take_rows_map_of)
  moreover have "map_of t ''price'' = Some (map ((!) b) ?idx)"
    using sort_column_Inr[OF b] by (simp add: t take_rows_map_of)
  ultimately show ?thesis
    using u t sort_indexer_perm[of "[a, b]" "nrows u"] by blast
qed

theorem rows_sorted_witness:
  "process_menu_data parse_decimal (data_frame menu_batch) =
     Inr [(''category'', [Str ''Mains'', Str ''Starters'']),
          (''item_name'', [Str ''Rice'', Str ''Soup'']),
          (''price'', [Num 80, Num 150])]
   \<and> sorted_wrt (\<lambda>(c1, p1) (c2, p2). c1 < c2 \<or> (c1 = c2 \<and> p1 \<le> p2))
        (zip [Str ''Mains'', Str ''Starters'' :: int cell] [Num 80, Num 150 :: int cell])"
proof -
  let ?t = "[(''category'', [Str ''Mains'', Str ''Starters'']),
          (''item_name'', [Str ''Rice'', Str ''Soup'']),
          (''price'', [Num 80, Num (150::int)])]"
  have h: "process_menu_data parse_decimal (data_frame menu_batch) = Inr ?t"
    by code_simp
  from rows_sorted[OF h] obtain cat price where
    c: "map_of ?t ''category'' = Some cat" and p: "map_of ?t ''price'' = Some price" and
    s: "sorted_wrt (\<lambda>(c1, p1) (c2, p2). c1 < c2 \<or> (c1 = c2 \<and> p1 \<le> p2)) (zip cat price)"
    by blast
  from c have c': "cat = [Str ''Mains'', Str ''Starters'']" by simp
  from p have p': "price = [Num 80, Num 150]" by simp
  from s have "sorted_wrt (\<lambda>(c1, p1) (c2, p2). c1 < c2 \<or> (c1 = c2 \<and> p1 \<le> p2))
        (zip [Str ''Mains'', Str ''Starters'' :: int cell] [Num 80, Num 150 :: int cell])"
    unfolding c' p' .
  with h show ?thesis by blast
qed

section \<open>Results about the pipeline\<close>

lemma unsorted_table:
  fixes df :: "'n::{zero,linorder} frame"
  assumes "unsorted parse df = Inr u"
  shows "\<exists>df3. collapsed parse df = Inr df3 \<and> distinct (columns u) \<and>
           set (columns u) = set (columns df3) - set cols_to_drop \<and>
           (\<forall>n vs. (n, vs) \<in> set u \<longrightarrow> map_of df3 n = Some vs)"
proof -
  from assms obtain df3 where c: "collapsed parse df = Inr df3"
    and u: "u = (let df4 = drop_duplicated df3; df5 = organize_columns df4
                 in drop_cols (filter (\<lambda>col. col \<in> set (columns df5)) cols_to_drop) df5)"
    by (auto simp: unsorted_def Let_def split: sum.splits)
  define df4 where "df4 = drop_duplicated df3"
  define df5 where "df5 = organize_columns df4"
  have u': "u = drop_cols (filter (\<lambda>col. col \<in> set (columns df5)) cols_to_drop) df5"
    using u by (simp add: df4_def df5_def Let_def)
  have d4: "distinct (columns df4)" by (simp add: df4_def drop_duplicated_distinct)
  note org = organize_columns_perm[OF d4, folded df5_def]
  from org have m5: "mset df5 = mset df4" and mo5: "map_of df5 = map_of df4" by simp_all
  from m5 have "mset (columns df5) = mset (columns df4)"
    by (metis columns_def mset_map)
  then have d5: "distinct (columns df5)" and s5: "set (columns df5) = set (columns df4)"
    using d4 by (metis mset_eq_imp_distinct_iff, metis mset_eq_setD)
  have du: "distinct (columns u)" using d5 by (simp add: u' drop_cols_distinct)
  have su: "set (columns u) = set (columns df3) - set cols_to_drop"
    using s5 by (auto simp: u' drop_cols_columns df4_def drop_duplicated_columns)
  have "\<And>n vs. (n, vs) \<in> set u \<Longrightarrow> map_of df3 n = Some vs"
  proof -
    fix n vs assume "(n, vs) \<in> set u"
    then have "(n, vs) \<in> set df5" using drop_cols_subset u' by blast
    then have "map_of df5 n = Some vs" using d5 by (simp add: columns_def)
    then show "map_of df3 n = Some vs"
      by (simp add: mo5 df4_def drop_duplicated_map_of)
  qed
  with c du su show ?thesis by blast
qed

text \<open>
  Whenever process_menu_data returns a table, the column names of the table are pairwise
  different; they are the names present after renaming and combining, without the
  dropped ones; and the cells of each column are those of the first column that carries
  its name after renaming and combining, in the row order of the sort.
\<close>

lemma first_occurrence_kept:
  fixes df :: "'n::{zero,linorder} frame"
  assumes "process_menu_data parse df = Inr t"
  shows "\<exists>df3 idx. collapsed parse df = Inr df3 \<and> distinct (columns t) \<and>
           set (columns t) = set (columns df3) - set cols_to_drop \<and>
           (\<forall>n vs. (n, vs) \<in> set t \<longrightarrow>
              (\<exists>vs0. map_of df3 n = Some vs0 \<and> vs = map ((!) vs0) idx))"
proof -
  from assms obtain u where u: "unsorted parse df = Inr u"
    and s: "sort_values [''category'', ''price''] u = Inr t"
    by (auto simp: process_menu_data_def split: sum.splits)
  from sort_values_two[OF s] obtain idx where t: "t = take_rows idx u" by blast
  from unsorted_table[OF u] obtain df3 where c: "collapsed parse df = Inr df3"
    and du: "distinct (columns u)"
    and su: "set (columns u) = set (columns df3) - set cols_to_drop"
    and mu: "\<forall>n vs. (n, vs) \<in> set u \<longrightarrow> map_of df3 n = Some vs"
    by blast
  have "\<forall>n vs. (n, vs) \<in> set t \<longrightarrow> (\<exists>vs0. map_of df3 n = Some vs0 \<and> vs = map ((!) vs0) idx)"
    using mu take_rows_mem[of _ _ idx u] unfolding t by blast
  with c du su show ?thesis by (auto simp: t take_rows_columns)
qed

lemma first_occurrence_kept_example:
  "process_menu_data parse_decimal (data_frame desc_batch) =
     Inr [(''category'', [Str ''Mains'']), (''price'', [Num 80]), (''desc'', [Str ''first''])]
   \<and> collapsed parse_decimal (data_frame desc_batch) =
     Inr [(''category'', [Str ''Mains'']), (''price'', [Num 80]),
          (''desc'', [Str ''first'']), (''desc'', [Str ''second''])]
   \<and> distinct (columns [(''category'', [Str ''Mains'']), (''price'', [Num (80::int)]),
        (''desc'', [Str ''first''])])"
proof -
  let ?t = "[(''category'', [Str ''Mains'']), (''price'', [Num (80::int)]), (''desc'', [Str ''first''])]"
  have h: "process_menu_data parse_decimal (data_frame desc_batch) = Inr ?t"
    by code_simp
  have c: "collapsed parse_decimal (data_frame desc_batch) =
     Inr [(''category'', [Str ''Mains'']), (''price'', [Num 80]),
          (''desc'', [Str ''first'']), (''desc'', [Str ''second''])]"
    by code_simp
  from first_occurrence_kept[OF h] have "distinct (columns ?t)" by blast
  with h c show ?thesis by blast
qed

text \<open>
  C8. The claim says that when the same column name appears more than once after
  renaming, the reconciled table keeps the first of these columns, and the specification
  gives two columns renamed to \<open>price\<close> as its example. For a name outside the numeric
  set that is what happens (\<open>first_occurrence_kept\<close>). For \<open>price\<close> it is not: the numeric
  conversion runs before the duplicate columns are removed, \<open>df['price']\<close> is then a
  DataFrame, \<open>pd.to_numeric\<close> raises TypeError, and no table is produced, although
  removing the duplicates of the renamed table would keep the first price column.
\<close>

theorem duplicate_price_raises:
  "rename_columns (data_frame dup_price_batch) =
     [(''category'', [Str ''Mains'']), (''price'', [Str ''80'']), (''price'', [Str ''90''])]
   \<and> process_menu_data parse_decimal (data_frame dup_price_batch) = Inl TypeError
   \<and> drop_duplicated (rename_columns (data_frame dup_price_batch)) =
     [(''category'', [Str ''Mains'']), (''price'', [Str ''80''])]"
  by code_simp

text \<open>
  C1. The claim says that reconciling a row with \<open>tag_slugs_0 = "veg"\<close>,
  \<open>tag_slugs_1 = "spicy"\<close> and \<open>tag_slugs_2 = ""\<close> yields one column \<open>tag_slugs\<close> with the
  value \<open>"veg, spicy"\<close>, the indexed columns being found by their names before renaming.
  process_menu_data renames first: the three columns are all called \<open>tag_slugs\<close> when
  clean_tag_columns looks for the pattern, nothing matches, and removing duplicate
  columns keeps the first one. The table has the value \<open>"veg"\<close>.
\<close>

theorem tags_not_collapsed:
  "process_menu_data parse_decimal (data_frame tags_batch) =
     Inr [(''category'', [Str ''Mains'']), (''item_name'', [Str ''Dal'']),
          (''price'', [Num 80]), (''tag_slugs'', [Str ''veg''])]"
  by code_simp

lemma tags_collapsed_before_renaming:
  "clean_tag_columns (data_frame tags_batch) =
     Inr [(''name'', [Str ''Dal'']), (''price'', [Str ''80'']), (''category'', [Str ''Mains'']),
          (''tag_slugs'', [Str ''veg, spicy''])]"
  by code_simp

section \<open>Results about failures\<close>



lemma rename_columns_columns: "columns (rename_columns df) = map clean_column_name (columns df)"
  by (simp add: rename_columns_def columns_def case_prod_unfold comp_def)

lemma combine_group_idle:
  "\<forall>n\<in>set (columns df). \<not> matches_group g n \<Longrightarrow> combine_group g df = Inr df"
  by (simp add: combine_group_def filter_empty_conv)

lemma combine_groups_idle:
  "\<forall>g\<in>set gs. \<forall>n\<in>set (columns df). \<not> matches_group g n \<Longrightarrow> combine_groups gs df = Inr df"
  by (induction gs) (simp_all add: combine_group_idle)
















lemma join_row_error:
  fixes x :: "'n::zero cell list"
  shows "join_row x = Inl e \<Longrightarrow> e = TypeError"
  by (simp add: join_row_def Let_def split: option.splits)


lemma collect_error: "collect rs = Inl e \<Longrightarrow> Inl e \<in> set rs"
  by (induction rs rule: collect.induct) (auto split: sum.splits)


lemma combine_group_error:
  fixes df :: "'n::zero frame"
  assumes "combine_group g df = Inl e"
  shows "e = TypeError"
proof -
  let ?rows = "rows_of (select_cols (filter (matches_group g) (columns df)) df) (nrows df)"
  from assms have "collect (map join_row ?rows) = Inl e"
    by (simp add: combine_group_def Let_def split: if_splits sum.splits)
  from collect_error[OF this] have "Inl e \<in> join_row ` set ?rows" by (simp only: set_map)
  then obtain row :: "'n cell list" where "Inl e = join_row row" by (rule imageE)
  then have "join_row row = Inl e" by (rule sym)
  then show ?thesis by (rule join_row_error)
qed


lemma combine_groups_error:
  fixes df :: "'n::zero frame"
  shows "combine_groups gs df = Inl e \<Longrightarrow> e = TypeError"
proof (induction gs arbitrary: df)
  case Nil
  then show ?case by simp
next
  case (Cons h gs)
  show ?case
  proof (cases "combine_group h df")
    case (Inl e')
    with Cons.prems have "e' = e" by simp
    with Inl combine_group_error[of h df e] show ?thesis by simp
  next
    case (Inr df1)
    with Cons.prems have "combine_groups gs df1 = Inl e" by simp
    then show ?thesis by (rule Cons.IH)
  qed
qed










section \<open>Results about the numeric columns in the pipeline\<close>










end
